theory Spec2Isabelle
  imports Main "HOL-Library.Char_ord" "HOL-Library.List_Lexorder"
begin

section \<open>Page state shared by the scripts\<close>

text \<open>
  The scripts of the meal planner pages communicate through a handful of globals and the
  two browser storages. The record below holds what \<^verbatim>\<open>auth.js\<close>,
  \<^verbatim>\<open>notifications.js\<close> and \<^verbatim>\<open>user-header.js\<close> read and write:
  \<^item> \<open>API_BASE\<close>: the script-level binding \<^verbatim>\<open>let API_BASE = null\<close> (\<open>None\<close> is \<^verbatim>\<open>null\<close>);
  \<^item> \<open>window_API_BASE\<close>: the property \<^verbatim>\<open>window.API_BASE\<close>;
  \<^item> \<open>resolveApiReady\<close>: whether \<^verbatim>\<open>_resolveApiReady\<close> still holds the resolver;
  \<^item> \<open>API_READY\<close>: whether the promise \<^verbatim>\<open>window.API_READY\<close> has been resolved;
  \<^item> \<open>sessionStorage\<close>, \<open>localStorage\<close>: the storages, key to value;
  \<^item> \<open>location_href\<close>: the address the page navigates to;
  \<^item> \<open>console\<close>: the lines written to the console, oldest first.
\<close>

datatype log_entry = Log string | Warn string | Err string

record page =
  API_BASE :: "string option"
  window_API_BASE :: "string option"
  resolveApiReady :: bool
  API_READY :: bool
  sessionStorage :: "string \<rightharpoonup> string"
  localStorage :: "string \<rightharpoonup> string"
  location_href :: string
  console :: "log_entry list"

text \<open>The state right after \<^verbatim>\<open>auth.js\<close> has run its top-level declarations.\<close>

definition page_loaded :: "(string \<rightharpoonup> string) \<Rightarrow> (string \<rightharpoonup> string) \<Rightarrow> string \<Rightarrow> page" where
  "page_loaded ss ls href =
     \<lparr>API_BASE = None, window_API_BASE = None, resolveApiReady = True, API_READY = False,
      sessionStorage = ss, localStorage = ls, location_href = href, console = []\<rparr>"

text \<open>
  JavaScript truthiness of a value that is \<^verbatim>\<open>null\<close> or a string: \<^verbatim>\<open>null\<close> and the
  empty string are falsy. A template literal renders \<^verbatim>\<open>null\<close> as the text \<open>null\<close>.
\<close>

definition truthy :: "string option \<Rightarrow> bool" where
  "truthy v = (case v of None \<Rightarrow> False | Some t \<Rightarrow> t \<noteq> [])"

definition template :: "string option \<Rightarrow> string" where
  "template v = (case v of None \<Rightarrow> ''null'' | Some t \<Rightarrow> t)"

section \<open>auth.js: publishing the API base\<close>

definition setApiBase :: "string \<Rightarrow> page \<Rightarrow> page" where
  "setApiBase base s =
     (let s1 = s\<lparr>API_BASE := Some base\<rparr>;
          s2 = s1\<lparr>window_API_BASE := API_BASE s1\<rparr>
      in if resolveApiReady s2
         then s2\<lparr>API_READY := True, resolveApiReady := False\<rparr>
         else s2)"

text \<open>
  What the page and the network give the scripts. \<open>location_protocol\<close> and
  \<open>location_origin\<close> are \<^verbatim>\<open>location.protocol\<close> and \<^verbatim>\<open>location.origin\<close>.
  \<open>health\<close> maps the address of a health request to what the network does with it:
  a response with a status after some milliseconds, a network error after some
  milliseconds, or nothing at all. \<open>lookup\<close> maps the address of any other request to
  its response status or to a network error.
\<close>

datatype probe = Responded nat nat | Failed nat | NoAnswer

datatype fetch_result = Response nat | NetworkError

record browser =
  location_protocol :: string
  location_origin :: string
  health :: "string \<Rightarrow> probe"
  lookup :: "string \<Rightarrow> fetch_result"

text \<open>\<^verbatim>\<open>const PROTOCOL = (location.protocol || 'http:')\<close>\<close>

definition PROTOCOL :: "browser \<Rightarrow> string" where
  "PROTOCOL b = (if location_protocol b = [] then ''http:'' else location_protocol b)"

definition startsWith :: "string \<Rightarrow> string \<Rightarrow> bool" where
  "startsWith s p = (take (length p) s = p)"

text \<open>
  The text of a number in a template literal or assigned to \<^verbatim>\<open>textContent\<close>: its
  decimal digits, for the integers the code handles.
\<close>

definition digit :: "nat \<Rightarrow> char" where
  "digit d = ''0123456789'' ! d"

fun decimal :: "nat \<Rightarrow> string" where
  "decimal n = (if n < 10 then [digit n] else decimal (n div 10) @ [digit (n mod 10)])"

declare decimal.simps [simp del]


text \<open>\<^verbatim>\<open>if (!candidates.includes(base)) candidates.push(base)\<close>\<close>

definition push_unique :: "string list \<Rightarrow> string \<Rightarrow> string list" where
  "push_unique cands base = (if base \<in> set cands then cands else cands @ [base])"

definition ports :: "nat list" where
  "ports = [8900, 8765, 8000]"

definition hosts :: "string list" where
  "hosts = [''127.0.0.1'', ''localhost'']"

definition candidates :: "browser \<Rightarrow> string list" where
  "candidates b =
     foldl push_unique
       (if startsWith (PROTOCOL b) ''http'' \<and> location_origin b \<noteq> []
        then [location_origin b @ ''/api''] else [])
       [PROTOCOL b @ ''//'' @ h @ '':'' @ decimal p @ ''/api''. h \<leftarrow> hosts, p \<leftarrow> ports]"

text \<open>\<^verbatim>\<open>r.ok\<close>: the status is in the range 200 to 299.\<close>

definition response_ok :: "nat \<Rightarrow> bool" where
  "response_ok status = (200 \<le> status \<and> status \<le> 299)"

text \<open>
  How the promise of \<^verbatim>\<open>fetchWithTimeout\<close> settles, and when (milliseconds after the
  requests were issued). The timer aborts the request after \<open>ms\<close>; an answer that has
  not arrived before the timer fires is lost, and the promise rejects at \<open>ms\<close>.
\<close>

datatype settled = Fulfilled nat string | Rejected nat

definition fetchWithTimeout :: "(string \<Rightarrow> probe) \<Rightarrow> string \<Rightarrow> nat \<Rightarrow> settled" where
  "fetchWithTimeout net base ms =
     (case net (base @ ''/health'') of
        Responded t status \<Rightarrow>
          if t < ms then (if response_ok status then Fulfilled t base else Rejected t)
          else Rejected ms
      | Failed t \<Rightarrow> if t < ms then Rejected t else Rejected ms
      | NoAnswer \<Rightarrow> Rejected ms)"

text \<open>
  \<^verbatim>\<open>Promise.any\<close>: the value of the promise that fulfils first; \<open>None\<close> when every
  promise rejects (the \<^verbatim>\<open>AggregateError\<close>). Of two promises fulfilled in the same
  millisecond the one earlier in the array is taken.
\<close>

fun earliest :: "settled list \<Rightarrow> (nat \<times> string) option" where
  "earliest [] = None"
| "earliest (Rejected t # ps) = earliest ps"
| "earliest (Fulfilled t v # ps) =
     (case earliest ps of
        None \<Rightarrow> Some (t, v)
      | Some (t', v') \<Rightarrow> if t' < t then Some (t', v') else Some (t, v))"

definition Promise_any :: "settled list \<Rightarrow> string option" where
  "Promise_any ps = map_option snd (earliest ps)"

definition fallback :: "browser \<Rightarrow> string" where
  "fallback b = PROTOCOL b @ ''//127.0.0.1:8900/api''"

definition detectApiBase :: "browser \<Rightarrow> page \<Rightarrow> page" where
  "detectApiBase b s =
     (let s' =
        (case Promise_any (map (\<lambda>base. fetchWithTimeout (health b) base 2500) (candidates b)) of
           Some winner \<Rightarrow> setApiBase winner s
         | None \<Rightarrow>
             setApiBase (fallback b)
               (s\<lparr>console := console s @ [Warn ''[MealPlanner] No API host responded; falling back to'']\<rparr>))
      in s'\<lparr>console := console s' @ [Log ''[MealPlanner] API_BASE ='']\<rparr>)"

text \<open>
  \<^verbatim>\<open>if (!API_BASE) await window.API_READY\<close>. The promise is resolved by
  \<^verbatim>\<open>setApiBase\<close> only, and before it is resolved the one pending call of
  \<^verbatim>\<open>setApiBase\<close> is the one at the end of \<^verbatim>\<open>detectApiBase\<close>; so the code after the
  \<^verbatim>\<open>await\<close> runs in the state \<^verbatim>\<open>detectApiBase\<close> leaves. No other handler is taken
  to run while a function is suspended.
\<close>

definition await_API_READY :: "browser \<Rightarrow> page \<Rightarrow> page" where
  "await_API_READY b s = (if API_READY s then s else detectApiBase b s)"

definition ensure_API_BASE :: "browser \<Rightarrow> page \<Rightarrow> page" where
  "ensure_API_BASE b s = (if \<not> truthy (API_BASE s) then await_API_READY b s else s)"

definition getApiBase :: "browser \<Rightarrow> page \<Rightarrow> string option \<times> page" where
  "getApiBase b s = (let s' = ensure_API_BASE b s in (API_BASE s', s'))"

section \<open>auth.js: the session check\<close>

definition getTabKey :: "string \<Rightarrow> string" where
  "getTabKey key = key"

definition removeItem :: "string \<Rightarrow> (string \<rightharpoonup> string) \<Rightarrow> (string \<rightharpoonup> string)" where
  "removeItem key st = st(key := None)"

definition setItem :: "string \<Rightarrow> string \<Rightarrow> (string \<rightharpoonup> string) \<Rightarrow> (string \<rightharpoonup> string)" where
  "setItem key v st = st(key \<mapsto> v)"

definition clearUserData :: "page \<Rightarrow> page" where
  "clearUserData s =
     s\<lparr>sessionStorage :=
         removeItem (getTabKey ''mealCodeData'')
           (removeItem (getTabKey ''selectedFamily'')
             (removeItem (getTabKey ''userFamilies'')
               (removeItem (getTabKey ''currentUser'') (sessionStorage s))))\<rparr>"

definition redirectToLogin :: "page \<Rightarrow> page" where
  "redirectToLogin s = (clearUserData s)\<lparr>location_href := ''index.html''\<rparr>"

definition logout :: "page \<Rightarrow> page" where
  "logout s = (clearUserData s)\<lparr>location_href := ''index.html''\<rparr>"

text \<open>
  The cached session is a JSON text. \<open>JSON_parse\<close> is the platform's parser (\<open>None\<close>
  when it throws), \<open>user_id_component\<close> is \<^verbatim>\<open>encodeURIComponent(user.user_id)\<close>
  (\<open>None\<close> when reading the property or encoding it throws, as on \<^verbatim>\<open>null\<close>), and
  \<open>is_truthy\<close> is the truthiness of the parsed value.
\<close>

record 'u codec =
  JSON_parse :: "string \<Rightarrow> 'u option"
  user_id_component :: "'u \<Rightarrow> string option"
  is_truthy :: "'u \<Rightarrow> bool"

text \<open>
  \<^verbatim>\<open>checkUserAuth\<close> returns the user or \<^verbatim>\<open>null\<close> (\<open>None\<close>), the state it leaves
  and the addresses it requested, in order.
\<close>

definition checkUserAuth :: "browser \<Rightarrow> 'u codec \<Rightarrow> page \<Rightarrow> 'u option \<times> page \<times> string list" where
  "checkUserAuth b c s =
     (let s1 = ensure_API_BASE b s in
      case sessionStorage s1 (getTabKey ''currentUser'') of
        None \<Rightarrow> (None, s1, [])
      | Some userData \<Rightarrow>
          if userData = [] then (None, s1, [])
          else
            (case JSON_parse c userData of
               None \<Rightarrow>
                 (None, clearUserData (s1\<lparr>console := console s1 @ [Err ''Error checking user auth:'']\<rparr>), [])
             | Some user \<Rightarrow>
                 (let (base, s2) = getApiBase b s1 in
                  case user_id_component c user of
                    None \<Rightarrow>
                      (None, clearUserData (s2\<lparr>console := console s2 @ [Err ''Error checking user auth:'']\<rparr>), [])
                  | Some uid \<Rightarrow>
                      (let url = template base @ ''/user/'' @ uid in
                       case lookup b url of
                         NetworkError \<Rightarrow>
                           (None, clearUserData (s2\<lparr>console := console s2 @ [Err ''Error checking user auth:'']\<rparr>), [url])
                       | Response status \<Rightarrow>
                           if \<not> response_ok status then (None, clearUserData s2, [url])
                           else (Some user, s2, [url])))))"

text \<open>
  \<^verbatim>\<open>initAuth\<close>: the callbacks are optional state transformers; the result names the
  path taken.
\<close>

datatype 'u auth_path = CalledOnSuccess 'u | CalledOnError | RedirectedToLogin | NothingCalled

definition initAuth ::
  "browser \<Rightarrow> 'u codec \<Rightarrow> ('u \<Rightarrow> page \<Rightarrow> page) option \<Rightarrow> (page \<Rightarrow> page) option \<Rightarrow> page
     \<Rightarrow> 'u auth_path \<times> page \<times> string list" where
  "initAuth b c onSuccess onError s =
     (let s0 = ensure_API_BASE b s;
          (user, s1, reqs) = checkUserAuth b c s0;
          failure =
            (case onError of
               Some g \<Rightarrow> (CalledOnError, g s1, reqs)
             | None \<Rightarrow> (RedirectedToLogin, redirectToLogin s1, reqs))
      in case user of
           None \<Rightarrow> failure
         | Some u \<Rightarrow>
             if is_truthy c u
             then (case onSuccess of
                     Some f \<Rightarrow> (CalledOnSuccess u, f u s1, reqs)
                   | None \<Rightarrow> (NothingCalled, s1, reqs))
             else failure)"

section \<open>notifications.js: the counts\<close>

text \<open>
  What a request of the poller gives: a success response with its parsed body, a
  response whose status is not a success, or an exception (a network error, or a
  body that is not JSON or not of the shape the code reads). The bodies are typed by endpoint: the unread count (\<open>None\<close> when
  the field is missing), the family ids of a user, the user ids of a family. Ids are
  given as the text a template literal renders them to.
\<close>

datatype 'a fetched = Ok 'a | NotOk | Throws

record api =
  unread_count :: "string \<Rightarrow> int option fetched"
  families :: "string \<Rightarrow> string list fetched"
  members :: "string \<Rightarrow> string list fetched"

text \<open>
  The poller reads the binding \<^verbatim>\<open>API_BASE\<close> as it is at the moment of the call; it
  does not wait for \<^verbatim>\<open>API_READY\<close>. Each function returns its count, the state it
  leaves and the addresses it requested.
\<close>

definition checkUnreadMessages :: "api \<Rightarrow> string \<Rightarrow> page \<Rightarrow> int \<times> page \<times> string list" where
  "checkUnreadMessages a userId s =
     (let url = template (API_BASE s) @ ''/messages/user/'' @ userId @ ''/unread-count'' in
      case unread_count a url of
        Ok data \<Rightarrow> ((case data of None \<Rightarrow> 0 | Some n \<Rightarrow> n), s, [url])
      | NotOk \<Rightarrow> (0, s, [url])
      | Throws \<Rightarrow> (0, s\<lparr>console := console s @ [Err ''Error checking unread messages:'']\<rparr>, [url]))"

text \<open>
  The loop over the families: \<open>acc\<close> is \<^verbatim>\<open>allCurrentMembers\<close>, \<open>reqs\<close> the addresses
  requested so far. The result is \<open>None\<close> when a request throws.
\<close>

fun fetch_members ::
  "api \<Rightarrow> string option \<Rightarrow> string list \<Rightarrow> (string \<times> string) list \<Rightarrow> string list
     \<Rightarrow> (string \<times> string) list option \<times> string list" where
  "fetch_members a base [] acc reqs = (Some acc, reqs)"
| "fetch_members a base (family_id # rest) acc reqs =
     (let url = template base @ ''/family/'' @ family_id @ ''/members'' in
      case members a url of
        Throws \<Rightarrow> (None, reqs @ [url])
      | NotOk \<Rightarrow> fetch_members a base rest acc (reqs @ [url])
      | Ok ms \<Rightarrow> fetch_members a base rest (acc @ map (\<lambda>user_id. (family_id, user_id)) ms) (reqs @ [url]))"

text \<open>\<^verbatim>\<open>Array.prototype.join\<close> and \<^verbatim>\<open>String.prototype.split\<close> on a one-character separator.\<close>

fun join :: "string \<Rightarrow> string list \<Rightarrow> string" where
  "join sep [] = []"
| "join sep [x] = x"
| "join sep (x # y # ys) = x @ sep @ join sep (y # ys)"

fun split :: "char \<Rightarrow> string \<Rightarrow> string list" where
  "split sep [] = [[]]"
| "split sep (x # xs) =
     (if x = sep then [] # split sep xs
      else (case split sep xs of [] \<Rightarrow> [[x]] | w # ws \<Rightarrow> (x # w) # ws))"

text \<open>
  The canonical key of a membership list: the pairs rendered as \<open>family:user\<close>, sorted
  as strings, joined by commas.
\<close>

definition members_key :: "(string \<times> string) list \<Rightarrow> string" where
  "members_key ms = join '','' (sort (map (\<lambda>(family_id, user_id). family_id @ '':'' @ user_id) ms))"

text \<open>
  \<^verbatim>\<open>new Set(array)\<close> keeps the first occurrence of each element, in order; the loop
  counts the elements of the current set that the last set does not have.
\<close>

definition Set_of :: "string list \<Rightarrow> string list" where
  "Set_of xs = foldl push_unique [] xs"

definition count_new :: "string \<Rightarrow> string \<Rightarrow> nat" where
  "count_new lastViewedMembers currentMembersKey =
     (let lastMemberIds = Set_of (split CHR '','' lastViewedMembers);
          currentMemberIds = Set_of (split CHR '','' currentMembersKey)
      in length (filter (\<lambda>memberId. memberId \<notin> set lastMemberIds) currentMemberIds))"

definition checkNewMembers :: "api \<Rightarrow> string \<Rightarrow> page \<Rightarrow> nat \<times> page \<times> string list" where
  "checkNewMembers a userId s =
     (let furl = template (API_BASE s) @ ''/user/'' @ userId @ ''/families'';
          failed = s\<lparr>console := console s @ [Err ''Error checking new members:'']\<rparr>
      in case families a furl of
           Throws \<Rightarrow> (0, failed, [furl])
         | NotOk \<Rightarrow> (0, s, [furl])
         | Ok fams \<Rightarrow>
             if length fams = 0 then (0, s, [furl])
             else
               (case fetch_members a (API_BASE s) fams [] [furl] of
                  (None, reqs) \<Rightarrow> (0, failed, reqs)
                | (Some allCurrentMembers, reqs) \<Rightarrow>
                    (let currentMembersKey = members_key allCurrentMembers;
                         lastViewedKey = ''family_members_'' @ userId;
                         seeded = s\<lparr>localStorage := setItem lastViewedKey currentMembersKey (localStorage s)\<rparr>
                     in case localStorage s lastViewedKey of
                          None \<Rightarrow> (0, seeded, reqs)
                        | Some lastViewedMembers \<Rightarrow>
                            if lastViewedMembers = [] then (0, seeded, reqs)
                            else (count_new lastViewedMembers currentMembersKey, s, reqs))))"

section \<open>notifications.js: the badge\<close>

text \<open>
  A DOM node is a text node or an element with its tag, its class list and its children.
\<close>

datatype node = Text string | Element string "string list" "node list"

fun classList :: "node \<Rightarrow> string list" where
  "classList (Text t) = []"
| "classList (Element tag cls kids) = cls"


definition is_badge :: "node \<Rightarrow> bool" where
  "is_badge n = (''notification-badge'' \<in> set (classList n))"



text \<open>\<^verbatim>\<open>textContent\<close>: the text of the descendants, in document order.\<close>

fun textContent :: "node \<Rightarrow> string"
  and textContent_list :: "node list \<Rightarrow> string" where
  "textContent (Text t) = t"
| "textContent (Element tag cls kids) = textContent_list kids"
| "textContent_list [] = []"
| "textContent_list (n # ns) = textContent n @ textContent_list ns"

text \<open>The number of badges among the descendants given.\<close>

fun badges_node :: "node \<Rightarrow> nat"
  and badges :: "node list \<Rightarrow> nat" where
  "badges_node (Text t) = 0"
| "badges_node (Element tag cls kids) =
     (if is_badge (Element tag cls kids) then 1 else 0) + badges kids"
| "badges [] = 0"
| "badges (n # ns) = badges_node n + badges ns"





section \<open>The family code view\<close>

text \<open>
  The state of the component that \<^verbatim>\<open>copyToClipboard\<close> touches: the status message,
  the clipboard, the console, and the timers armed by \<^verbatim>\<open>setTimeout\<close>, each with the
  milliseconds left and the message its callback sets.
\<close>

record family_code =
  message :: string
  clipboard :: "string option"
  timers :: "(nat \<times> string) list"
  errors :: "string list"

text \<open>\<open>writes\<close> tells whether \<^verbatim>\<open>navigator.clipboard.writeText\<close> succeeds.\<close>

definition copyToClipboard :: "bool \<Rightarrow> string \<Rightarrow> family_code \<Rightarrow> family_code" where
  "copyToClipboard writes txt v =
     (if writes
      then v\<lparr>clipboard := Some txt,
             message := ''Family code copied to clipboard!'',
             timers := timers v @ [(3000, [])]\<rparr>
      else v\<lparr>errors := errors v @ [''Failed to copy: ''],
             message := ''Failed to copy to clipboard''\<rparr>)"

text \<open>
  Letting \<open>d\<close> milliseconds pass: the timers that are due run in the order of their
  time, the others have \<open>d\<close> milliseconds less to wait.
\<close>

definition elapse :: "nat \<Rightarrow> family_code \<Rightarrow> family_code" where
  "elapse d v =
     v\<lparr>message := foldl (\<lambda>m (t, m'). m') (message v) (sort_key fst (filter (\<lambda>(t, m'). t \<le> d) (timers v))),
       timers := map (\<lambda>(t, m'). (t - d, m')) (filter (\<lambda>(t, m'). \<not> t \<le> d) (timers v))\<rparr>"

section \<open>user-header.js: the logout link\<close>

text \<open>The click handler of \<^verbatim>\<open>logoutBtn\<close> installed by \<^verbatim>\<open>setupEventListeners\<close>.\<close>

definition logoutBtn_click :: "page \<Rightarrow> page" where
  "logoutBtn_click s =
     s\<lparr>localStorage :=
         removeItem ''selectedFamily''
           (removeItem ''userFamilies''
             (removeItem ''currentUser'' (localStorage s))),
       location_href := ''index.html''\<rparr>"

section \<open>Notions used in the statements\<close>

text \<open>
  The millisecond at which the health endpoint of a candidate answers with a success
  status, when it does so before the 2500 ms of its own timer have passed.
\<close>

definition succeeds_at :: "browser \<Rightarrow> string \<Rightarrow> nat option" where
  "succeeds_at b base =
     (case health b (base @ ''/health'') of
        Responded t status \<Rightarrow> if t < 2500 \<and> response_ok status then Some t else None
      | Failed t \<Rightarrow> None
      | NoAnswer \<Rightarrow> None)"

text \<open>
  The candidate list as the specification describes it: the page's own origin when the
  page is served over http(s), then the two hosts crossed with the three ports.
\<close>

definition same_origin :: "browser \<Rightarrow> string list" where
  "same_origin b =
     (if startsWith (PROTOCOL b) ''http'' \<and> location_origin b \<noteq> []
      then [location_origin b @ ''/api''] else [])"

definition dev_bases :: "browser \<Rightarrow> string list" where
  "dev_bases b =
     [PROTOCOL b @ ''//127.0.0.1:8900/api'', PROTOCOL b @ ''//127.0.0.1:8765/api'',
      PROTOCOL b @ ''//127.0.0.1:8000/api'', PROTOCOL b @ ''//localhost:8900/api'',
      PROTOCOL b @ ''//localhost:8765/api'', PROTOCOL b @ ''//localhost:8000/api'']"

text \<open>Every candidate fails or times out.\<close>

definition no_success :: "browser \<Rightarrow> bool" where
  "no_success b = (\<forall>c\<in>set (candidates b). succeeds_at b c = None)"

text \<open>The two console lines of \<^verbatim>\<open>detectApiBase\<close>.\<close>

definition warning :: log_entry where
  "warning = Warn ''[MealPlanner] No API host responded; falling back to''"

definition announcement :: log_entry where
  "announcement = Log ''[MealPlanner] API_BASE =''"

text \<open>The four keys of the session are absent from the session storage.\<close>

definition session_cleared :: "page \<Rightarrow> bool" where
  "session_cleared s =
     (sessionStorage s ''currentUser'' = None \<and> sessionStorage s ''userFamilies'' = None
      \<and> sessionStorage s ''selectedFamily'' = None \<and> sessionStorage s ''mealCodeData'' = None)"

text \<open>
  The address of the families request, and the membership list one check assembles:
  \<open>None\<close> when the families request fails or names no family, or when a members
  request throws.
\<close>

definition families_url :: "string \<Rightarrow> page \<Rightarrow> string" where
  "families_url userId s = template (API_BASE s) @ ''/user/'' @ userId @ ''/families''"

definition current_members :: "api \<Rightarrow> string \<Rightarrow> page \<Rightarrow> (string \<times> string) list option" where
  "current_members a userId s =
     (case families a (families_url userId s) of
        Ok fams \<Rightarrow>
          if fams = [] then None
          else fst (fetch_members a (API_BASE s) fams [] [families_url userId s])
      | NotOk \<Rightarrow> None
      | Throws \<Rightarrow> None)"

text \<open>
  The address of the members request of a family, and the pairs that one family
  contributes to the current membership: its members when the request is answered
  with success, none when it is answered without.
\<close>

definition members_url :: "string option \<Rightarrow> string \<Rightarrow> string" where
  "members_url base family_id = template base @ ''/family/'' @ family_id @ ''/members''"

definition members_found :: "api \<Rightarrow> string option \<Rightarrow> string \<Rightarrow> (string \<times> string) list" where
  "members_found a base family_id =
     (case members a (members_url base family_id) of
        Ok ms \<Rightarrow> map (\<lambda>user_id. (family_id, user_id)) ms
      | NotOk \<Rightarrow> []
      | Throws \<Rightarrow> [])"

text \<open>
  The identifier \<open>family:user\<close> of a membership pair, and the membership lists whose
  family ids hold no comma and no colon and whose user ids hold no comma.
\<close>

definition pair_key :: "string \<times> string \<Rightarrow> string" where
  "pair_key m = fst m @ '':'' @ snd m"

definition plain_ids :: "(string \<times> string) list \<Rightarrow> bool" where
  "plain_ids ms =
     list_all (\<lambda>(family_id, user_id).
        CHR '','' \<notin> set family_id \<and> CHR '':'' \<notin> set family_id \<and> CHR '','' \<notin> set user_id) ms"

section \<open>Example inputs\<close>

text \<open>A page that has just loaded, with both storages empty.\<close>

definition fresh_page :: page where
  "fresh_page = page_loaded Map.empty Map.empty ''home.html''"

text \<open>
  A page served from \<open>http://localhost:8000\<close>: its own origin answers 404 after 5 ms,
  the backend answers on \<open>127.0.0.1:8900\<close> after 10 ms and on \<open>localhost:8900\<close> after
  40 ms, every other health request fails after 5 ms. The backend does not know user 7.
\<close>

definition dev_browser :: browser where
  "dev_browser =
     \<lparr>location_protocol = ''http:'', location_origin = ''http://localhost:8000'',
      health = (\<lambda>url. if url = ''http://127.0.0.1:8900/api/health'' then Responded 10 200
                       else if url = ''http://localhost:8900/api/health'' then Responded 40 200
                       else if url = ''http://localhost:8000/api/health'' then Responded 5 404
                       else Failed 5),
      lookup = (\<lambda>url. if url = ''http://127.0.0.1:8900/api/user/7'' then Response 404
                       else NetworkError)\<rparr>"

text \<open>
  The same page with no backend in reach: \<open>127.0.0.1:8900\<close> answers only after
  3000 ms, the page's own origin answers 500, nothing else answers.
\<close>

definition offline_browser :: browser where
  "offline_browser =
     \<lparr>location_protocol = ''http:'', location_origin = ''http://localhost:8000'',
      health = (\<lambda>url. if url = ''http://127.0.0.1:8900/api/health'' then Responded 3000 200
                       else if url = ''http://localhost:8000/api/health'' then Responded 5 500
                       else NoAnswer),
      lookup = (\<lambda>url. NetworkError)\<rparr>"

text \<open>The family code view right after it has mounted.\<close>

definition mounted :: family_code where
  "mounted = \<lparr>message = [], clipboard = None, timers = [], errors = []\<rparr>"

text \<open>A cached session, and a codec that reads it to the user id it holds.\<close>

definition session_text :: string where
  \<open>session_text = ''{"user_id":7,"user_name":"An"}''\<close>

definition example_codec :: "string codec" where
  "example_codec =
     \<lparr>JSON_parse = (\<lambda>txt. if txt = session_text then Some ''7'' else None),
      user_id_component = (\<lambda>user. Some user),
      is_truthy = (\<lambda>user. True)\<rparr>"

text \<open>A page whose session storage holds the four session keys, and one without a session.\<close>

definition logged_in :: page where
  "logged_in =
     page_loaded
       [''currentUser'' \<mapsto> session_text, ''userFamilies'' \<mapsto> ''[1]'',
        ''selectedFamily'' \<mapsto> ''1'', ''mealCodeData'' \<mapsto> ''{}'']
       [''currentUser'' \<mapsto> session_text, ''mealCodeData'' \<mapsto> ''{}'']
       ''home.html''"

definition guest_page :: page where
  "guest_page = page_loaded [''mealCodeData'' \<mapsto> ''{}''] Map.empty ''home.html''"

text \<open>
  A backend in which user 7 belongs to family F1 and the members request of F1 is
  answered with a status that is not a success; and a backend whose families request
  is answered so.
\<close>

definition stalled_api :: api where
  "stalled_api =
     \<lparr>unread_count = (\<lambda>url. Ok (Some 3)),
      families = (\<lambda>url. if url = ''http://127.0.0.1:8900/api/user/7/families'' then Ok [''F1''] else NotOk),
      members = (\<lambda>url. NotOk)\<rparr>"

definition failing_api :: api where
  "failing_api =
     \<lparr>unread_count = (\<lambda>url. NotOk), families = (\<lambda>url. NotOk), members = (\<lambda>url. NotOk)\<rparr>"

text \<open>
  A backend in which user 7 belongs to the families F2, F1 and F3, in this order: F2
  has the member U9, F1 the members U2 and U1, and the members request of F3 is
  answered without success. The same backend when the members request of F1 throws.
\<close>

definition three_family_api :: api where
  "three_family_api =
     \<lparr>unread_count = (\<lambda>url. Ok (Some 3)),
      families = (\<lambda>url. if url = ''http://127.0.0.1:8900/api/user/7/families''
                         then Ok [''F2'', ''F1'', ''F3''] else NotOk),
      members = (\<lambda>url. if url = ''http://127.0.0.1:8900/api/family/F2/members'' then Ok [''U9'']
                        else if url = ''http://127.0.0.1:8900/api/family/F1/members'' then Ok [''U2'', ''U1'']
                        else NotOk)\<rparr>"

definition throwing_api :: api where
  "throwing_api =
     \<lparr>unread_count = (\<lambda>url. Ok (Some 3)),
      families = (\<lambda>url. if url = ''http://127.0.0.1:8900/api/user/7/families''
                         then Ok [''F2'', ''F1'', ''F3''] else NotOk),
      members = (\<lambda>url. if url = ''http://127.0.0.1:8900/api/family/F2/members'' then Ok [''U9'']
                        else if url = ''http://127.0.0.1:8900/api/family/F1/members'' then Throws
                        else NotOk)\<rparr>"

text \<open>The backend once U3 has joined family F1.\<close>

definition grown_api :: api where
  "grown_api =
     \<lparr>unread_count = (\<lambda>url. Ok (Some 3)),
      families = (\<lambda>url. if url = ''http://127.0.0.1:8900/api/user/7/families'' then Ok [''F1''] else NotOk),
      members = (\<lambda>url. if url = ''http://127.0.0.1:8900/api/family/F1/members''
                        then Ok [''U1'', ''U2'', ''U3''] else NotOk)\<rparr>"

text \<open>
  A page on which the API base has been published: with no baseline stored, and with
  the baseline of family F1 with members U1 and U2.
\<close>

definition ready_page :: page where
  "ready_page = setApiBase ''http://127.0.0.1:8900/api'' fresh_page"

definition returning_page :: page where
  "returning_page =
     setApiBase ''http://127.0.0.1:8900/api''
       (page_loaded Map.empty [''family_members_7'' \<mapsto> ''F1:U1,F1:U2''] ''home.html'')"



section \<open>Properties of the API base\<close>

lemma earliest_None_iff: "earliest ps = None \<longleftrightarrow> (\<forall>p\<in>set ps. \<exists>t. p = Rejected t)"
  by (induction ps rule: earliest.induct) (auto split: option.splits)

lemma earliest_SomeD:
  "earliest ps = Some (t, v) \<Longrightarrow>
     Fulfilled t v \<in> set ps \<and> (\<forall>t' v'. Fulfilled t' v' \<in> set ps \<longrightarrow> t \<le> t')"
proof (induction ps arbitrary: t v rule: earliest.induct)
  case 1
  then show ?case by simp
next
  case (2 u ps)
  then show ?case by simp
next
  case (3 u w ps)
  show ?case
  proof (cases "earliest ps")
    case None
    with "3.prems" have tv: "t = u" "v = w" by simp_all
    from None have "\<forall>p\<in>set ps. \<exists>t. p = Rejected t" by (simp add: earliest_None_iff)
    then have "Fulfilled t' v' \<notin> set ps" for t' v' by auto
    with tv show ?thesis by auto
  next
    case (Some p)
    obtain t0 v0 where p: "p = (t0, v0)" by (cases p)
    from "3.IH" [of t0 v0] Some p
    have ih: "Fulfilled t0 v0 \<in> set ps" "\<forall>t' v'. Fulfilled t' v' \<in> set ps \<longrightarrow> t0 \<le> t'"
      by simp_all
    show ?thesis
    proof (cases "t0 < u")
      case True
      with "3.prems" Some p have "t = t0" "v = v0" by simp_all
      with ih True show ?thesis by auto
    next
      case False
      with "3.prems" Some p have "t = u" "v = w" by simp_all
      with ih False show ?thesis by fastforce
    qed
  qed
qed

lemma earliest_mem: "earliest ps = Some (t, v) \<Longrightarrow> Fulfilled t v \<in> set ps"
  using earliest_SomeD by blast

lemma earliest_least:
  "earliest ps = Some (t, v) \<Longrightarrow> Fulfilled t' v' \<in> set ps \<Longrightarrow> t \<le> t'"
  using earliest_SomeD by blast

lemma fetchWithTimeout_Fulfilled_iff:
  "fetchWithTimeout (health b) c 2500 = Fulfilled t v \<longleftrightarrow> v = c \<and> succeeds_at b c = Some t"
  by (auto simp: fetchWithTimeout_def succeeds_at_def split: probe.splits if_splits)

lemma fetchWithTimeout_Rejected_iff:
  "(\<exists>t. fetchWithTimeout (health b) c 2500 = Rejected t) \<longleftrightarrow> succeeds_at b c = None"
  by (auto simp: fetchWithTimeout_def succeeds_at_def split: probe.splits if_splits)

lemma Promise_any_None_iff:
  "Promise_any (map (\<lambda>base. fetchWithTimeout (health b) base 2500) cs) = None
     \<longleftrightarrow> (\<forall>c\<in>set cs. succeeds_at b c = None)"
  by (simp add: Promise_any_def earliest_None_iff fetchWithTimeout_Rejected_iff)

lemma Promise_any_SomeD:
  assumes "Promise_any (map (\<lambda>base. fetchWithTimeout (health b) base 2500) cs) = Some w"
  shows "\<exists>t. w \<in> set cs \<and> succeeds_at b w = Some t
           \<and> (\<forall>c\<in>set cs. \<forall>t'. succeeds_at b c = Some t' \<longrightarrow> t \<le> t')"
proof -
  let ?f = "\<lambda>base. fetchWithTimeout (health b) base 2500"
  from assms obtain p where "earliest (map ?f cs) = Some p" "snd p = w"
    unfolding Promise_any_def by (cases "earliest (map ?f cs)") simp_all
  then have e: "earliest (map ?f cs) = Some (fst p, w)"
    by (cases p) simp
  define t where "t = fst p"
  from earliest_mem [OF e]
  have mem: "Fulfilled t w \<in> ?f ` set cs"
    unfolding t_def by simp
  have least: "t \<le> t'" if "Fulfilled t' v' \<in> ?f ` set cs" for t' v'
    unfolding t_def using that by (intro earliest_least [OF e]) simp
  from mem obtain c where c: "c \<in> set cs" "Fulfilled t w = ?f c"
    by (rule imageE)
  from c(2) have "?f c = Fulfilled t w" by (rule sym)
  then have "w = c" "succeeds_at b c = Some t"
    by (simp_all add: fetchWithTimeout_Fulfilled_iff)
  with c(1) have w: "w \<in> set cs" "succeeds_at b w = Some t" by simp_all
  have "t \<le> t'" if "c' \<in> set cs" "succeeds_at b c' = Some t'" for c' t'
  proof -
    from that(2) have "?f c' = Fulfilled t' c'"
      by (simp add: fetchWithTimeout_Fulfilled_iff)
    then have "Fulfilled t' c' = ?f c'" by (rule sym)
    with that(1) have "Fulfilled t' c' \<in> ?f ` set cs" by (rule rev_image_eqI)
    then show ?thesis by (rule least)
  qed
  with w show ?thesis by blast
qed

text \<open>
  The winner of the race does not depend on the order of the array, when no two
  candidates succeed in the same millisecond.
\<close>

lemma earliest_order_irrelevant:
  assumes same: "set ps = set qs"
    and times: "\<And>t v v'. Fulfilled t v \<in> set ps \<Longrightarrow> Fulfilled t v' \<in> set ps \<Longrightarrow> v = v'"
  shows "earliest ps = earliest qs"
proof (cases "earliest ps")
  case None
  then have "\<forall>p\<in>set qs. \<exists>t. p = Rejected t"
    unfolding earliest_None_iff same .
  then have "earliest qs = None" by (simp only: earliest_None_iff)
  with None show ?thesis by simp
next
  case (Some p)
  obtain t v where p: "earliest ps = Some (t, v)"
    using Some by (cases p) simp
  have "earliest qs \<noteq> None"
  proof
    assume "earliest qs = None"
    then have "\<forall>p\<in>set ps. \<exists>t. p = Rejected t"
      unfolding earliest_None_iff same .
    moreover from p have "Fulfilled t v \<in> set ps" by (rule earliest_mem)
    ultimately show False by auto
  qed
  then obtain t' v' where q: "earliest qs = Some (t', v')" by auto
  from p have m: "Fulfilled t v \<in> set ps" by (rule earliest_mem)
  from q have m': "Fulfilled t' v' \<in> set ps" unfolding same by (rule earliest_mem)
  from p m' have "t \<le> t'" by (rule earliest_least)
  moreover from q m have "t' \<le> t" unfolding same by (rule earliest_least)
  ultimately have "t = t'" by simp
  with m m' times have "v = v'" by blast
  with \<open>t = t'\<close> p q show ?thesis by simp
qed

lemma Promise_any_order_irrelevant:
  assumes "set cs = set cs'"
    and "\<And>c c' t. c \<in> set cs \<Longrightarrow> c' \<in> set cs \<Longrightarrow> succeeds_at b c = Some t
            \<Longrightarrow> succeeds_at b c' = Some t \<Longrightarrow> c = c'"
  shows "Promise_any (map (\<lambda>base. fetchWithTimeout (health b) base 2500) cs)
       = Promise_any (map (\<lambda>base. fetchWithTimeout (health b) base 2500) cs')"
proof -
  let ?f = "\<lambda>base. fetchWithTimeout (health b) base 2500"
  have "earliest (map ?f cs) = earliest (map ?f cs')"
  proof (rule earliest_order_irrelevant)
    show "set (map ?f cs) = set (map ?f cs')" using assms(1) by simp
  next
    fix t v v' assume "Fulfilled t v \<in> set (map ?f cs)" "Fulfilled t v' \<in> set (map ?f cs)"
    then obtain c c' where "c \<in> set cs" "?f c = Fulfilled t v" "c' \<in> set cs" "?f c' = Fulfilled t v'"
      by (auto simp only: set_map image_iff dest: sym)
    then have "c \<in> set cs" "c' \<in> set cs" "v = c" "v' = c'"
      "succeeds_at b c = Some t" "succeeds_at b c' = Some t"
      by (simp_all add: fetchWithTimeout_Fulfilled_iff)
    with assms(2) [of c c' t] show "v = v'" by simp
  qed
  then show ?thesis by (simp only: Promise_any_def)
qed

lemma set_foldl_push_unique: "set (foldl push_unique cs xs) = set cs \<union> set xs"
  by (induction xs arbitrary: cs) (auto simp: push_unique_def)

lemma decimal_ports:
  "decimal 8900 = ''8900''" "decimal 8765 = ''8765''" "decimal 8000 = ''8000''"
  by (simp_all add: decimal.simps digit_def)

text \<open>The loop that builds the candidate list keeps the first occurrence of each address.\<close>

lemma foldl_push_unique_distinct:
  "distinct xs \<Longrightarrow> foldl push_unique cs xs = cs @ filter (\<lambda>x. x \<notin> set cs) xs"
proof (induction xs arbitrary: cs)
  case Nil
  then show ?case by simp
next
  case (Cons x xs)
  show ?case
  proof (cases "x \<in> set cs")
    case True
    with Cons show ?thesis by (simp add: push_unique_def)
  next
    case False
    from Cons.prems have "x \<notin> set xs" by simp
    then have "filter (\<lambda>y. y \<notin> set (cs @ [x])) xs = filter (\<lambda>y. y \<notin> set cs) xs"
      by (intro filter_cong) auto
    with False Cons show ?thesis by (simp add: push_unique_def)
  qed
qed

lemma dev_bases_eq:
  "[PROTOCOL b @ ''//'' @ h @ '':'' @ decimal p @ ''/api''. h \<leftarrow> hosts, p \<leftarrow> ports] = dev_bases b"
  by (simp add: hosts_def ports_def dev_bases_def decimal_ports)

lemma distinct_dev_bases: "distinct (dev_bases b)"
  by (simp add: dev_bases_def)

lemma candidates_shape:
  "candidates b = same_origin b @ filter (\<lambda>c. c \<notin> set (same_origin b)) (dev_bases b)"
  unfolding candidates_def dev_bases_eq same_origin_def [symmetric]
  by (rule foldl_push_unique_distinct) (rule distinct_dev_bases)

lemma fallback_candidate: "fallback b \<in> set (candidates b)"
  unfolding candidates_def set_foldl_push_unique
  by (simp add: fallback_def hosts_def ports_def decimal_ports)

lemma candidates_nonempty: "c \<in> set (candidates b) \<Longrightarrow> c \<noteq> []"
  unfolding candidates_def set_foldl_push_unique
  by (auto split: if_splits)

lemma API_BASE_setApiBase [simp]: "API_BASE (setApiBase base s) = Some base"
  by (simp add: setApiBase_def Let_def)

lemma console_setApiBase [simp]: "console (setApiBase base s) = console s"
  by (simp add: setApiBase_def Let_def)

text \<open>
  C1, as the code has it. The candidates are the page's own origin with \<open>/api\<close>, when
  the page is served over http(s), then \<open>{protocol}//{host}:{port}/api\<close> for the hosts
  127.0.0.1 and localhost crossed with the ports 8900, 8765 and 8000, without the
  addresses already listed. When some candidate answers its health request with a
  success status before its 2500 ms have passed, \<^verbatim>\<open>detectApiBase\<close> publishes a
  candidate that did so and that no other candidate preceded, whatever its place in the
  list. When none does, it publishes \<open>{protocol}//127.0.0.1:8900/api\<close>. It takes the
  fallback branch (the warning on the console) if and only if every candidate fails or
  times out. The published value is the fallback address also when that address,
  which is itself a candidate, wins the race.
\<close>

theorem detectApiBase_first_success:
  "candidates b = same_origin b @ filter (\<lambda>c. c \<notin> set (same_origin b)) (dev_bases b)
   \<and> (\<not> no_success b \<longrightarrow>
      (\<exists>w t. API_BASE (detectApiBase b s) = Some w \<and> w \<in> set (candidates b)
          \<and> succeeds_at b w = Some t
          \<and> (\<forall>c\<in>set (candidates b). \<forall>t'. succeeds_at b c = Some t' \<longrightarrow> t \<le> t')))
   \<and> (no_success b \<longrightarrow> API_BASE (detectApiBase b s) = Some (fallback b))
   \<and> (console (detectApiBase b s) = console s @ [warning, announcement] \<longleftrightarrow> no_success b)
   \<and> (console (detectApiBase b s) = console s @ [announcement] \<longleftrightarrow> \<not> no_success b)
   \<and> (API_BASE (detectApiBase b s) = Some (fallback b) \<longrightarrow>
        no_success b \<or> succeeds_at b (fallback b) \<noteq> None)"
proof -
  let ?any = "Promise_any (map (\<lambda>base. fetchWithTimeout (health b) base 2500) (candidates b))"
  have race: "(\<not> no_success b \<longrightarrow>
      (\<exists>w t. API_BASE (detectApiBase b s) = Some w \<and> w \<in> set (candidates b)
          \<and> succeeds_at b w = Some t
          \<and> (\<forall>c\<in>set (candidates b). \<forall>t'. succeeds_at b c = Some t' \<longrightarrow> t \<le> t')))
   \<and> (no_success b \<longrightarrow> API_BASE (detectApiBase b s) = Some (fallback b))
   \<and> (console (detectApiBase b s) = console s @ [warning, announcement] \<longleftrightarrow> no_success b)
   \<and> (console (detectApiBase b s) = console s @ [announcement] \<longleftrightarrow> \<not> no_success b)
   \<and> (API_BASE (detectApiBase b s) = Some (fallback b) \<longrightarrow>
        no_success b \<or> succeeds_at b (fallback b) \<noteq> None)"
  proof (cases ?any)
    case None
    then have all: "no_success b"
      by (simp add: Promise_any_None_iff no_success_def)
    from None have "API_BASE (detectApiBase b s) = Some (fallback b)"
      and "console (detectApiBase b s) = console s @ [warning, announcement]"
      by (simp_all add: detectApiBase_def Let_def warning_def announcement_def)
    with all show ?thesis by simp
  next
    case (Some w)
    from Promise_any_SomeD [OF Some] obtain t where w: "w \<in> set (candidates b)"
      "succeeds_at b w = Some t"
      "\<forall>c\<in>set (candidates b). \<forall>t'. succeeds_at b c = Some t' \<longrightarrow> t \<le> t'" by blast
    from w(1,2) have some: "\<not> no_success b"
      by (auto simp: no_success_def)
    from Some have base: "API_BASE (detectApiBase b s) = Some w"
      and log: "console (detectApiBase b s) = console s @ [announcement]"
      by (simp_all add: detectApiBase_def Let_def announcement_def)
    from base w(2) have "API_BASE (detectApiBase b s) = Some (fallback b) \<longrightarrow> succeeds_at b (fallback b) \<noteq> None"
      by auto
    with some base log w show ?thesis by auto
  qed
  have "candidates b = same_origin b @ filter (\<lambda>c. c \<notin> set (same_origin b)) (dev_bases b)"
    by (rule candidates_shape)
  then show ?thesis using race by (rule conjI)
qed

lemma candidates_dev_browser:
  "candidates dev_browser =
     [''http://localhost:8000/api'', ''http://127.0.0.1:8900/api'', ''http://127.0.0.1:8765/api'',
      ''http://127.0.0.1:8000/api'', ''http://localhost:8900/api'', ''http://localhost:8765/api'']"
  by (simp add: candidates_def dev_browser_def PROTOCOL_def startsWith_def hosts_def ports_def
      push_unique_def decimal_ports)

lemma candidates_offline_browser:
  "candidates offline_browser =
     [''http://localhost:8000/api'', ''http://127.0.0.1:8900/api'', ''http://127.0.0.1:8765/api'',
      ''http://127.0.0.1:8000/api'', ''http://localhost:8900/api'', ''http://localhost:8765/api'']"
  by (simp add: candidates_def offline_browser_def PROTOCOL_def startsWith_def hosts_def ports_def
      push_unique_def decimal_ports)

lemma dev_browser_success: "\<not> no_success dev_browser"
  unfolding no_success_def candidates_dev_browser
  by (simp add: succeeds_at_def dev_browser_def response_ok_def)

lemma offline_browser_no_success: "no_success offline_browser"
  unfolding no_success_def candidates_offline_browser
  by (simp add: succeeds_at_def offline_browser_def response_ok_def)

lemma API_BASE_detect_dev_browser:
  "API_BASE (detectApiBase dev_browser s) = Some ''http://127.0.0.1:8900/api''"
  unfolding detectApiBase_def candidates_dev_browser
  by (simp add: Promise_any_def fetchWithTimeout_def dev_browser_def response_ok_def Let_def)

theorem detectApiBase_first_success_witness:
  "\<not> no_success dev_browser
   \<and> API_BASE (detectApiBase dev_browser fresh_page) = Some ''http://127.0.0.1:8900/api''
   \<and> succeeds_at dev_browser ''http://127.0.0.1:8900/api'' = Some 10
   \<and> console (detectApiBase dev_browser fresh_page) = [announcement]
   \<and> no_success offline_browser
   \<and> API_BASE (detectApiBase offline_browser fresh_page) = Some ''http://127.0.0.1:8900/api''
   \<and> console (detectApiBase offline_browser fresh_page) = [warning, announcement]"
proof -
  note dev = detectApiBase_first_success [of dev_browser fresh_page]
  note off = detectApiBase_first_success [of offline_browser fresh_page]
  have c: "console fresh_page = []"
    by (simp add: fresh_page_def page_loaded_def)
  from dev dev_browser_success obtain w t where
    w: "API_BASE (detectApiBase dev_browser fresh_page) = Some w" "w \<in> set (candidates dev_browser)"
      "succeeds_at dev_browser w = Some t"
      "\<forall>c\<in>set (candidates dev_browser). \<forall>t'. succeeds_at dev_browser c = Some t' \<longrightarrow> t \<le> t'"
    by blast
  have s10: "succeeds_at dev_browser ''http://127.0.0.1:8900/api'' = Some 10"
    by (simp add: succeeds_at_def dev_browser_def response_ok_def)
  from w(4) s10 have "t \<le> 10" by (simp add: candidates_dev_browser)
  with w(2,3) have "w = ''http://127.0.0.1:8900/api''"
    by (auto simp: candidates_dev_browser succeeds_at_def dev_browser_def response_ok_def split: if_splits)
  with w(1) have 1: "API_BASE (detectApiBase dev_browser fresh_page) = Some ''http://127.0.0.1:8900/api''"
    by simp
  from dev dev_browser_success c have 2: "console (detectApiBase dev_browser fresh_page) = [announcement]"
    by simp
  from off offline_browser_no_success c
  have 3: "API_BASE (detectApiBase offline_browser fresh_page) = Some ''http://127.0.0.1:8900/api''"
    and 4: "console (detectApiBase offline_browser fresh_page) = [warning, announcement]"
    by (simp_all add: fallback_def PROTOCOL_def offline_browser_def)
  from 1 2 3 4 s10 dev_browser_success offline_browser_no_success show ?thesis by simp
qed

text \<open>
  C1 as stated fails: here the published value is the fallback address although a
  candidate succeeded.
\<close>

theorem detectApiBase_fallback_counterexample:
  "API_BASE (detectApiBase dev_browser fresh_page) = Some (fallback dev_browser)
   \<and> \<not> no_success dev_browser"
proof -
  have "fallback dev_browser = ''http://127.0.0.1:8900/api''"
    by (simp add: fallback_def PROTOCOL_def dev_browser_def)
  with API_BASE_detect_dev_browser [of fresh_page] show ?thesis
    using dev_browser_success by simp
qed

text \<open>
  C2 as stated fails: a second call of \<^verbatim>\<open>setApiBase\<close> with another address
  changes the published value.
\<close>

theorem setApiBase_second_call_counterexample:
  "API_BASE (setApiBase ''http://localhost:8000/api'' (setApiBase ''http://127.0.0.1:8900/api'' fresh_page))
     \<noteq> API_BASE (setApiBase ''http://127.0.0.1:8900/api'' fresh_page)"
  by (simp add: setApiBase_def fresh_page_def page_loaded_def Let_def)

text \<open>
  C2, as the code has it. \<^verbatim>\<open>setApiBase\<close> overwrites the published value on every
  call, so that after two calls readers see the second address; what the first call
  settles for good is the readiness signal, which later calls leave as it is, with the
  resolver dropped. Setting the same address again changes nothing, and on a freshly
  loaded page the first call resolves the signal.
\<close>

theorem setApiBase_last_writer_wins:
  "API_BASE (setApiBase base2 (setApiBase base1 s)) = Some base2
   \<and> window_API_BASE (setApiBase base2 (setApiBase base1 s)) = Some base2
   \<and> API_READY (setApiBase base2 (setApiBase base1 s)) = API_READY (setApiBase base1 s)
   \<and> resolveApiReady (setApiBase base2 (setApiBase base1 s)) = False
   \<and> setApiBase base1 (setApiBase base1 s) = setApiBase base1 s
   \<and> API_READY (setApiBase base1 (page_loaded ss ls href))"
  by (simp add: setApiBase_def page_loaded_def Let_def)

section \<open>Properties of the readers of the API base\<close>

lemma storage_setApiBase [simp]:
  "sessionStorage (setApiBase base s) = sessionStorage s"
  "localStorage (setApiBase base s) = localStorage s"
  "location_href (setApiBase base s) = location_href s"
  by (simp_all add: setApiBase_def Let_def)

lemma storage_detectApiBase [simp]:
  "sessionStorage (detectApiBase b s) = sessionStorage s"
  "localStorage (detectApiBase b s) = localStorage s"
  "location_href (detectApiBase b s) = location_href s"
  by (simp_all add: detectApiBase_def Let_def split: option.splits)

lemma storage_ensure_API_BASE [simp]:
  "sessionStorage (ensure_API_BASE b s) = sessionStorage s"
  "localStorage (ensure_API_BASE b s) = localStorage s"
  "location_href (ensure_API_BASE b s) = location_href s"
  by (simp_all add: ensure_API_BASE_def await_API_READY_def)

text \<open>Whatever the network does, \<^verbatim>\<open>detectApiBase\<close> publishes an address that is not empty.\<close>

lemma detectApiBase_truthy: "truthy (API_BASE (detectApiBase b s))"
proof (cases "Promise_any (map (\<lambda>base. fetchWithTimeout (health b) base 2500) (candidates b))")
  case None
  then have "API_BASE (detectApiBase b s) = Some (fallback b)"
    by (simp add: detectApiBase_def Let_def)
  then show ?thesis by (simp add: truthy_def fallback_def)
next
  case (Some w)
  from Promise_any_SomeD [OF Some] have "w \<in> set (candidates b)" by blast
  then have "w \<noteq> []" by (rule candidates_nonempty)
  moreover from Some have "API_BASE (detectApiBase b s) = Some w"
    by (simp add: detectApiBase_def Let_def)
  ultimately show ?thesis by (simp add: truthy_def)
qed

lemma ensure_API_BASE_idem: "ensure_API_BASE b (ensure_API_BASE b s) = ensure_API_BASE b s"
  using detectApiBase_truthy [of b s]
  by (simp add: ensure_API_BASE_def await_API_READY_def)

lemma getApiBase_ensured:
  "getApiBase b (ensure_API_BASE b s) = (API_BASE (ensure_API_BASE b s), ensure_API_BASE b s)"
  by (simp add: getApiBase_def ensure_API_BASE_idem Let_def)

text \<open>
  A reader that goes through \<^verbatim>\<open>getApiBase\<close> never sees an unset base, on any page
  on which the readiness signal is resolved only once a base is set.
\<close>

lemma getApiBase_truthy:
  assumes "API_READY s \<Longrightarrow> truthy (API_BASE s)"
  shows "truthy (fst (getApiBase b s))"
  using assms detectApiBase_truthy [of b s]
  by (auto simp: getApiBase_def ensure_API_BASE_def await_API_READY_def Let_def)

lemma fetch_members_reqs:
  "\<exists>q. snd (fetch_members a base fs acc reqs) = reqs @ q"
proof (induction fs arbitrary: acc reqs)
  case Nil
  then show ?case by simp
next
  case (Cons f fs)
  show ?case
  proof (cases "members a (template base @ ''/family/'' @ f @ ''/members'')")
    case (Ok ms)
    with Cons [of "acc @ map (\<lambda>user_id. (f, user_id)) ms" "reqs @ [template base @ ''/family/'' @ f @ ''/members'']"]
    show ?thesis by (auto simp: Let_def)
  next
    case NotOk
    with Cons [of acc "reqs @ [template base @ ''/family/'' @ f @ ''/members'']"]
    show ?thesis by (auto simp: Let_def)
  next
    case Throws
    then show ?thesis by (simp add: Let_def)
  qed
qed

lemma checkNewMembers_first_request:
  "take 1 (snd (snd (checkNewMembers a userId s))) = [template (API_BASE s) @ ''/user/'' @ userId @ ''/families'']"
proof -
  let ?u = "template (API_BASE s) @ ''/user/'' @ userId @ ''/families''"
  have fm: "take 1 (snd (fetch_members a (API_BASE s) fs [] [?u])) = [?u]" for fs
    using fetch_members_reqs [of a "API_BASE s" fs "[]" "[?u]"] by auto
  show ?thesis
  proof (cases "families a ?u")
    case (Ok fams)
    show ?thesis
    proof (cases "fetch_members a (API_BASE s) fams [] [?u]")
      case (Pair r q)
      with fm [of fams] have "take 1 q = [?u]" by simp
      with Ok Pair show ?thesis
        by (simp add: checkNewMembers_def Let_def split: option.splits)
    qed
  next
    case NotOk
    then show ?thesis by (simp add: checkNewMembers_def Let_def)
  next
    case Throws
    then show ?thesis by (simp add: checkNewMembers_def Let_def)
  qed
qed

text \<open>
  C3 fails on the poller. On a page that has just loaded, before the health requests
  have settled, the base is unset; \<^verbatim>\<open>checkUnreadMessages\<close> and
  \<^verbatim>\<open>checkNewMembers\<close> called then do not wait: they request addresses built from
  the unset base, which the template renders as \<open>null\<close>.
\<close>

theorem poller_requests_with_unset_API_BASE:
  "API_BASE (page_loaded ss ls href) = None
   \<and> snd (snd (checkUnreadMessages a userId (page_loaded ss ls href)))
       = [''null/messages/user/'' @ userId @ ''/unread-count'']
   \<and> take 1 (snd (snd (checkNewMembers a userId (page_loaded ss ls href))))
       = [''null/user/'' @ userId @ ''/families'']"
proof -
  have "take 1 (snd (snd (checkNewMembers a userId (page_loaded ss ls href))))
       = [''null/user/'' @ userId @ ''/families'']"
    using checkNewMembers_first_request [of a userId "page_loaded ss ls href"]
    by (simp add: page_loaded_def template_def)
  moreover have "snd (snd (checkUnreadMessages a userId (page_loaded ss ls href)))
       = [''null/messages/user/'' @ userId @ ''/unread-count'']"
    by (simp add: checkUnreadMessages_def page_loaded_def template_def Let_def split: fetched.splits)
  ultimately show ?thesis by (simp add: page_loaded_def)
qed

section \<open>Properties of the session check\<close>

lemma sessionStorage_clearUserData:
  "sessionStorage (clearUserData s) k =
     (if k \<in> {''currentUser'', ''userFamilies'', ''selectedFamily'', ''mealCodeData''} then None
      else sessionStorage s k)"
  by (simp add: clearUserData_def removeItem_def getTabKey_def)

lemma session_cleared_clearUserData [simp]: "session_cleared (clearUserData s)"
  by (simp add: session_cleared_def sessionStorage_clearUserData)

lemma session_cleared_redirectToLogin [simp]: "session_cleared (redirectToLogin s)"
  by (simp add: session_cleared_def redirectToLogin_def sessionStorage_clearUserData)

lemma location_href_redirectToLogin [simp]: "location_href (redirectToLogin s) = ''index.html''"
  by (simp add: redirectToLogin_def)

text \<open>
  A cached session whose lookup fails or is answered without success makes
  \<^verbatim>\<open>checkUserAuth\<close> return \<^verbatim>\<open>null\<close> after \<^verbatim>\<open>clearUserData\<close>, having
  requested the lookup only.
\<close>

lemma unconfirmed_lookup_clears:
  assumes "sessionStorage s ''currentUser'' = Some userData" "userData \<noteq> []"
    and "JSON_parse c userData = Some user" "user_id_component c user = Some uid"
    and "url = template (fst (getApiBase b s)) @ ''/user/'' @ uid"
    and "lookup b url = NetworkError \<or> (\<exists>status. lookup b url = Response status \<and> \<not> response_ok status)"
  shows "\<exists>s'. checkUserAuth b c s = (None, clearUserData s', [url])"
proof -
  let ?s1 = "ensure_API_BASE b s"
  have base: "fst (getApiBase b s) = API_BASE ?s1"
    by (simp add: getApiBase_def Let_def)
  from assms(6) show ?thesis
  proof
    assume "lookup b url = NetworkError"
    with assms(1-5) base show ?thesis
      by (simp add: checkUserAuth_def getTabKey_def getApiBase_ensured Let_def; blast)
  next
    assume "\<exists>status. lookup b url = Response status \<and> \<not> response_ok status"
    then obtain status where "lookup b url = Response status" "\<not> response_ok status" by blast
    with assms(1-5) base show ?thesis
      by (simp add: checkUserAuth_def getTabKey_def getApiBase_ensured Let_def; blast)
  qed
qed

text \<open>
  C4. Let the session storage hold a session under \<open>currentUser\<close>, with a user id,
  and let the lookup of that user end in a network error or in a response whose status
  is not a success. Then \<^verbatim>\<open>checkUserAuth\<close> returns \<^verbatim>\<open>null\<close>, the four session
  keys are gone from the session storage, and the lookup is the one request made;
  \<^verbatim>\<open>initAuth\<close> calls the error handler when the caller gave one, on the cleared
  state, and redirects to the login page otherwise.
\<close>

theorem checkUserAuth_unconfirmed:
  assumes cached: "sessionStorage s ''currentUser'' = Some userData" "userData \<noteq> []"
    and parsed: "JSON_parse c userData = Some user" "user_id_component c user = Some uid"
    and url: "url = template (fst (getApiBase b s)) @ ''/user/'' @ uid"
    and unconfirmed: "lookup b url = NetworkError \<or> (\<exists>status. lookup b url = Response status \<and> \<not> response_ok status)"
  shows "fst (checkUserAuth b c s) = None
    \<and> session_cleared (fst (snd (checkUserAuth b c s)))
    \<and> snd (snd (checkUserAuth b c s)) = [url]
    \<and> fst (initAuth b c onSuccess (Some onError) s) = CalledOnError
    \<and> fst (snd (initAuth b c onSuccess (Some onError) s)) = onError (fst (snd (checkUserAuth b c s)))
    \<and> fst (initAuth b c onSuccess None s) = RedirectedToLogin
    \<and> session_cleared (fst (snd (initAuth b c onSuccess None s)))
    \<and> location_href (fst (snd (initAuth b c onSuccess None s))) = ''index.html''"
proof -
  from unconfirmed_lookup_clears [OF assms]
  obtain s' where r: "checkUserAuth b c s = (None, clearUserData s', [url])" by blast
  have again: "checkUserAuth b c (ensure_API_BASE b s) = checkUserAuth b c s"
    by (simp add: checkUserAuth_def ensure_API_BASE_idem)
  from r again show ?thesis
    by (simp add: initAuth_def Let_def)
qed

lemma getApiBase_dev_browser_logged_in:
  "fst (getApiBase dev_browser logged_in) = Some ''http://127.0.0.1:8900/api''"
  by (simp add: getApiBase_def ensure_API_BASE_def await_API_READY_def truthy_def Let_def
      logged_in_def page_loaded_def API_BASE_detect_dev_browser)

theorem checkUserAuth_unconfirmed_witness:
  "sessionStorage logged_in ''currentUser'' = Some session_text
   \<and> lookup dev_browser ''http://127.0.0.1:8900/api/user/7'' = Response 404
   \<and> fst (checkUserAuth dev_browser example_codec logged_in) = None
   \<and> session_cleared (fst (snd (checkUserAuth dev_browser example_codec logged_in)))
   \<and> snd (snd (checkUserAuth dev_browser example_codec logged_in)) = [''http://127.0.0.1:8900/api/user/7'']
   \<and> fst (initAuth dev_browser example_codec None None logged_in) = RedirectedToLogin
   \<and> location_href (fst (snd (initAuth dev_browser example_codec None None logged_in))) = ''index.html''"
proof -
  have h1: "sessionStorage logged_in ''currentUser'' = Some session_text"
    by (simp add: logged_in_def page_loaded_def)
  have h2: "session_text \<noteq> []"
    by (simp add: session_text_def)
  have h3: "JSON_parse example_codec session_text = Some ''7''"
    by (simp add: example_codec_def)
  have h4: "user_id_component example_codec ''7'' = Some ''7''"
    by (simp add: example_codec_def)
  have h5: "''http://127.0.0.1:8900/api/user/7''
      = template (fst (getApiBase dev_browser logged_in)) @ ''/user/'' @ ''7''"
    by (simp add: getApiBase_dev_browser_logged_in template_def)
  have l: "lookup dev_browser ''http://127.0.0.1:8900/api/user/7'' = Response 404"
    by (simp add: dev_browser_def)
  then have h6: "lookup dev_browser ''http://127.0.0.1:8900/api/user/7'' = NetworkError
      \<or> (\<exists>status. lookup dev_browser ''http://127.0.0.1:8900/api/user/7'' = Response status
            \<and> \<not> response_ok status)"
    by (simp add: response_ok_def)
  from checkUserAuth_unconfirmed [OF h1 h2 h3 h4 h5 h6, of None] h1 l
  show ?thesis by simp
qed

text \<open>
  C10. When the session storage has no entry under \<open>currentUser\<close>,
  \<^verbatim>\<open>checkUserAuth\<close> returns \<^verbatim>\<open>null\<close>, requests nothing, and leaves the session
  storage, the local storage and the address of the page as they were.
\<close>

theorem checkUserAuth_no_session:
  assumes "sessionStorage s ''currentUser'' = None"
  shows "fst (checkUserAuth b c s) = None
    \<and> snd (snd (checkUserAuth b c s)) = []
    \<and> sessionStorage (fst (snd (checkUserAuth b c s))) = sessionStorage s
    \<and> localStorage (fst (snd (checkUserAuth b c s))) = localStorage s
    \<and> location_href (fst (snd (checkUserAuth b c s))) = location_href s"
  using assms by (simp add: checkUserAuth_def getTabKey_def Let_def)

theorem checkUserAuth_no_session_witness:
  "sessionStorage guest_page ''currentUser'' = None
   \<and> fst (checkUserAuth dev_browser example_codec guest_page) = None
   \<and> snd (snd (checkUserAuth dev_browser example_codec guest_page)) = []
   \<and> sessionStorage (fst (snd (checkUserAuth dev_browser example_codec guest_page))) ''mealCodeData''
       = Some ''{}''"
proof -
  have h: "sessionStorage guest_page ''currentUser'' = None"
    by (simp add: guest_page_def page_loaded_def)
  have "sessionStorage guest_page ''mealCodeData'' = Some ''{}''"
    by (simp add: guest_page_def page_loaded_def)
  with checkUserAuth_no_session [OF h, of dev_browser example_codec] h
  show ?thesis by simp
qed

text \<open>
  C9 fails on the header widget. The click handler of its logout link removes three
  keys from the local storage and navigates; the session storage, where
  \<^verbatim>\<open>auth.js\<close> keeps the session, is left as it was, and \<open>mealCodeData\<close> is removed
  from neither storage.
\<close>

theorem logoutBtn_click_keeps_session:
  "sessionStorage (logoutBtn_click s) = sessionStorage s
   \<and> localStorage (logoutBtn_click s) ''mealCodeData'' = localStorage s ''mealCodeData''
   \<and> location_href (logoutBtn_click s) = ''index.html''
   \<and> sessionStorage (logoutBtn_click logged_in) ''currentUser'' = Some session_text
   \<and> \<not> session_cleared (logoutBtn_click logged_in)
   \<and> session_cleared (logout logged_in)"
  by (simp add: logoutBtn_click_def removeItem_def logged_in_def page_loaded_def
      session_cleared_def logout_def sessionStorage_clearUserData)

section \<open>Properties of the new-member check\<close>

lemma fetch_members_Cons:
  "fetch_members a base (f # rest) acc reqs =
     (case members a (members_url base f) of
        Throws \<Rightarrow> (None, reqs @ [members_url base f])
      | NotOk \<Rightarrow> fetch_members a base rest acc (reqs @ [members_url base f])
      | Ok ms \<Rightarrow>
          fetch_members a base rest (acc @ map (\<lambda>user_id. (f, user_id)) ms) (reqs @ [members_url base f]))"
  by (simp add: members_url_def Let_def split: fetched.splits)

text \<open>
  The loop over the families gives no membership exactly when some members request
  throws, and otherwise the members found, family by family, in the order of the
  families.
\<close>

lemma fetch_members_result:
  "fst (fetch_members a base fams acc reqs) =
     (if \<forall>f\<in>set fams. members a (members_url base f) \<noteq> Throws
      then Some (acc @ concat (map (members_found a base) fams))
      else None)"
proof (induction fams arbitrary: acc reqs)
  case Nil
  then show ?case by simp
next
  case (Cons f fams)
  show ?case
  proof (cases "members a (members_url base f)")
    case (Ok ms)
    then have mf: "members_found a base f = map (\<lambda>user_id. (f, user_id)) ms"
      by (simp add: members_found_def)
    from Ok have "fst (fetch_members a base (f # fams) acc reqs)
        = fst (fetch_members a base fams (acc @ map (\<lambda>user_id. (f, user_id)) ms) (reqs @ [members_url base f]))"
      by (simp only: fetch_members_Cons fetched.case)
    also note Cons [of "acc @ map (\<lambda>user_id. (f, user_id)) ms" "reqs @ [members_url base f]"]
    finally show ?thesis using Ok mf by simp
  next
    case NotOk
    then have mf: "members_found a base f = []"
      by (simp add: members_found_def)
    from NotOk have "fst (fetch_members a base (f # fams) acc reqs)
        = fst (fetch_members a base fams acc (reqs @ [members_url base f]))"
      by (simp only: fetch_members_Cons fetched.case)
    also note Cons [of acc "reqs @ [members_url base f]"]
    finally show ?thesis using NotOk mf by simp
  next
    case Throws
    then have "fst (fetch_members a base (f # fams) acc reqs) = None"
      by (simp only: fetch_members_Cons fetched.case fst_conv)
    with Throws show ?thesis by simp
  qed
qed

text \<open>The membership that one check assembles, in terms of the responses.\<close>

lemma current_members_eq:
  "current_members a userId s =
     (case families a (families_url userId s) of
        Ok fams \<Rightarrow>
          if fams \<noteq> [] \<and> (\<forall>f\<in>set fams. members a (members_url (API_BASE s) f) \<noteq> Throws)
          then Some (concat (map (members_found a (API_BASE s)) fams))
          else None
      | NotOk \<Rightarrow> None
      | Throws \<Rightarrow> None)"
  by (simp add: current_members_def fetch_members_result split: fetched.splits)

text \<open>
  C6, as the code has it. On the first check for a user, with no baseline in the local
  storage, \<^verbatim>\<open>checkNewMembers\<close> returns 0 in every case. When the families request
  is answered with success and names at least one family, and no members request of
  these families throws, it stores under the key of the user the canonical key of the
  current membership: the members of every family whose members request is answered
  with success, in the order of the families. In every other case (the families
  request fails or names no family, or a members request throws) it leaves the local
  storage as it was.
\<close>

theorem checkNewMembers_first_check:
  assumes "localStorage s (''family_members_'' @ userId) = None"
  shows "fst (checkNewMembers a userId s) = 0
    \<and> localStorage (fst (snd (checkNewMembers a userId s))) =
        (case families a (template (API_BASE s) @ ''/user/'' @ userId @ ''/families'') of
           Ok fams \<Rightarrow>
             if fams \<noteq> [] \<and> (\<forall>f\<in>set fams. members a (members_url (API_BASE s) f) \<noteq> Throws)
             then (localStorage s)(''family_members_'' @ userId \<mapsto>
                     members_key (concat (map (members_found a (API_BASE s)) fams)))
             else localStorage s
         | NotOk \<Rightarrow> localStorage s
         | Throws \<Rightarrow> localStorage s)"
proof (cases "families a (template (API_BASE s) @ ''/user/'' @ userId @ ''/families'')")
  case (Ok fams)
  let ?furl = "template (API_BASE s) @ ''/user/'' @ userId @ ''/families''"
  let ?all = "concat (map (members_found a (API_BASE s)) fams)"
  let ?seeds = "fams \<noteq> [] \<and> (\<forall>f\<in>set fams. members a (members_url (API_BASE s) f) \<noteq> Throws)"
  obtain r q where fm: "fetch_members a (API_BASE s) fams [] [?furl] = (r, q)"
    by (cases "fetch_members a (API_BASE s) fams [] [?furl]")
  have r: "r = (if \<forall>f\<in>set fams. members a (members_url (API_BASE s) f) \<noteq> Throws
      then Some ?all else None)"
    using fetch_members_result [of a "API_BASE s" fams "[]" "[?furl]"] fm by simp
  show ?thesis
  proof (cases ?seeds)
    case True
    with r have "r = Some ?all" by simp
    with Ok True fm assms
    have "fst (checkNewMembers a userId s) = 0"
      and "localStorage (fst (snd (checkNewMembers a userId s)))
        = (localStorage s)(''family_members_'' @ userId \<mapsto> members_key ?all)"
      by (simp_all add: checkNewMembers_def Let_def setItem_def)
    then show ?thesis
      unfolding Ok fetched.case if_P [OF True] by (rule conjI)
  next
    case False
    have "fst (checkNewMembers a userId s) = 0
      \<and> localStorage (fst (snd (checkNewMembers a userId s))) = localStorage s"
    proof (cases "fams = []")
      case True
      with Ok show ?thesis
        by (simp add: checkNewMembers_def Let_def)
    next
      case ne: False
      with False have "\<not> (\<forall>f\<in>set fams. members a (members_url (API_BASE s) f) \<noteq> Throws)"
        by blast
      with r have "r = None" by (simp only: if_False)
      with Ok ne fm show ?thesis
        by (simp add: checkNewMembers_def Let_def)
    qed
    then show ?thesis
      unfolding Ok fetched.case if_not_P [OF False] .
  qed
next
  case NotOk
  then show ?thesis
    by (simp add: checkNewMembers_def Let_def)
next
  case Throws
  then show ?thesis
    by (simp add: checkNewMembers_def Let_def)
qed

lemma API_BASE_ready_page: "API_BASE ready_page = Some ''http://127.0.0.1:8900/api''"
  by (simp add: ready_page_def setApiBase_def Let_def)

lemma localStorage_ready_page: "localStorage ready_page = Map.empty"
  by (simp add: ready_page_def setApiBase_def Let_def fresh_page_def page_loaded_def)

lemma members_key_three:
  "members_key [(''F2'', ''U9''), (''F1'', ''U2''), (''F1'', ''U1'')] = ''F1:U1,F1:U2,F2:U9''"
  by code_simp

theorem checkNewMembers_first_check_witness:
  "localStorage ready_page (''family_members_'' @ ''7'') = None
   \<and> fst (checkNewMembers three_family_api ''7'' ready_page) = 0
   \<and> localStorage (fst (snd (checkNewMembers three_family_api ''7'' ready_page))) ''family_members_7''
       = Some ''F1:U1,F1:U2,F2:U9''
   \<and> fst (checkNewMembers throwing_api ''7'' ready_page) = 0
   \<and> localStorage (fst (snd (checkNewMembers throwing_api ''7'' ready_page))) ''family_members_7'' = None"
proof -
  have h: "localStorage ready_page (''family_members_'' @ ''7'') = None"
    by (simp add: localStorage_ready_page)
  note three = checkNewMembers_first_check [OF h, of three_family_api]
  note throw = checkNewMembers_first_check [OF h, of throwing_api]
  have f3: "families three_family_api (template (API_BASE ready_page) @ ''/user/'' @ ''7'' @ ''/families'')
      = Ok [''F2'', ''F1'', ''F3'']"
    by (simp add: three_family_api_def API_BASE_ready_page template_def)
  have ft: "families throwing_api (template (API_BASE ready_page) @ ''/user/'' @ ''7'' @ ''/families'')
      = Ok [''F2'', ''F1'', ''F3'']"
    by (simp add: throwing_api_def API_BASE_ready_page template_def)
  have ok3: "[''F2'', ''F1'', ''F3''] \<noteq> []
      \<and> (\<forall>f\<in>set [''F2'', ''F1'', ''F3''].
            members three_family_api (members_url (API_BASE ready_page) f) \<noteq> Throws)"
    by (simp add: three_family_api_def members_url_def API_BASE_ready_page template_def)
  have thr: "\<not> ([''F2'', ''F1'', ''F3''] \<noteq> []
      \<and> (\<forall>f\<in>set [''F2'', ''F1'', ''F3''].
            members throwing_api (members_url (API_BASE ready_page) f) \<noteq> Throws))"
    by (simp add: throwing_api_def members_url_def API_BASE_ready_page template_def)
  have found: "concat (map (members_found three_family_api (API_BASE ready_page)) [''F2'', ''F1'', ''F3''])
      = [(''F2'', ''U9''), (''F1'', ''U2''), (''F1'', ''U1'')]"
    by (simp add: members_found_def three_family_api_def members_url_def API_BASE_ready_page template_def)
  from three have 1: "fst (checkNewMembers three_family_api ''7'' ready_page) = 0"
    by (rule conjunct1)
  from three [THEN conjunct2]
  have "localStorage (fst (snd (checkNewMembers three_family_api ''7'' ready_page)))
      = (localStorage ready_page)(''family_members_'' @ ''7'' \<mapsto> ''F1:U1,F1:U2,F2:U9'')"
    unfolding f3 fetched.case if_P [OF ok3] found members_key_three .
  then have 2: "localStorage (fst (snd (checkNewMembers three_family_api ''7'' ready_page))) ''family_members_7''
       = Some ''F1:U1,F1:U2,F2:U9''"
    by simp
  from throw have 3: "fst (checkNewMembers throwing_api ''7'' ready_page) = 0"
    by (rule conjunct1)
  from throw [THEN conjunct2]
  have "localStorage (fst (snd (checkNewMembers throwing_api ''7'' ready_page)))
      = localStorage ready_page"
    unfolding ft fetched.case if_not_P [OF thr] .
  then have 4: "localStorage (fst (snd (checkNewMembers throwing_api ''7'' ready_page))) ''family_members_7'' = None"
    by (simp add: localStorage_ready_page)
  from h 1 2 3 4 show ?thesis by (intro conjI)
qed

text \<open>
  C6 as stated fails: when the families request is answered without success, the first
  check returns 0 and the storage is not seeded.
\<close>

theorem checkNewMembers_not_seeded_counterexample:
  "localStorage ready_page ''family_members_7'' = None
   \<and> checkNewMembers failing_api ''7'' ready_page
       = (0, ready_page, [''http://127.0.0.1:8900/api/user/7/families''])"
  by (simp add: checkNewMembers_def failing_api_def localStorage_ready_page API_BASE_ready_page
      template_def Let_def)

lemma API_BASE_returning_page: "API_BASE returning_page = Some ''http://127.0.0.1:8900/api''"
  by (simp add: returning_page_def setApiBase_def Let_def)

lemma localStorage_returning_page:
  "localStorage returning_page ''family_members_7'' = Some ''F1:U1,F1:U2''"
  by (simp add: returning_page_def setApiBase_def Let_def page_loaded_def)

lemma count_new_empty_key: "count_new ''F1:U1,F1:U2'' [] = 1"
  by code_simp

lemma members_key_Nil: "members_key [] = []"
  by (simp add: members_key_def)

lemma split_not_Nil [simp]: "split c s \<noteq> []"
  by (induction s) (auto split: list.splits)

lemma split_no_separator: "c \<notin> set x \<Longrightarrow> split c x = [x]"
  by (induction x) (auto split: list.splits)

lemma split_append_separator: "c \<notin> set x \<Longrightarrow> split c (x @ c # rest) = x # split c rest"
  by (induction x) (auto split: list.splits)

lemma split_join:
  assumes "xs \<noteq> []" and "\<forall>x\<in>set xs. CHR '','' \<notin> set x"
  shows "split CHR '','' (join '','' xs) = xs"
  using assms
proof (induction "'',''" xs rule: join.induct)
  case 1
  then show ?case by simp
next
  case (2 x)
  then show ?case by (simp add: split_no_separator)
next
  case (3 x y ys)
  then show ?case by (simp add: split_append_separator)
qed

lemma sort_not_Nil: "xs \<noteq> [] \<Longrightarrow> sort xs \<noteq> []"
  by (cases xs) simp_all

lemma distinct_foldl_push_unique: "distinct cs \<Longrightarrow> distinct (foldl push_unique cs xs)"
  by (induction xs arbitrary: cs) (auto simp: push_unique_def)

lemma set_Set_of [simp]: "set (Set_of xs) = set xs"
  by (simp add: Set_of_def set_foldl_push_unique)

lemma distinct_Set_of [simp]: "distinct (Set_of xs)"
  by (simp add: Set_of_def distinct_foldl_push_unique)

lemma count_new_card:
  "count_new lastViewedMembers currentMembersKey =
     card (set (split CHR '','' currentMembersKey) - set (split CHR '','' lastViewedMembers))"
proof -
  let ?cur = "split CHR '','' currentMembersKey" and ?last = "split CHR '','' lastViewedMembers"
  have "count_new lastViewedMembers currentMembersKey
      = length (filter (\<lambda>memberId. memberId \<notin> set ?last) (Set_of ?cur))"
    by (simp add: count_new_def Let_def)
  also have "\<dots> = card ({x. x \<notin> set ?last} \<inter> set (Set_of ?cur))"
    by (rule distinct_length_filter) (rule distinct_Set_of)
  also have "{x. x \<notin> set ?last} \<inter> set (Set_of ?cur) = set ?cur - set ?last"
    unfolding set_Set_of by blast
  finally show ?thesis .
qed

lemma pair_key_inj:
  "CHR '':'' \<notin> set f \<Longrightarrow> CHR '':'' \<notin> set f' \<Longrightarrow> f @ CHR '':'' # u = f' @ CHR '':'' # u'
     \<Longrightarrow> f = f' \<and> u = u'"
proof (induction f arbitrary: f')
  case Nil
  then show ?case by (cases f') auto
next
  case (Cons x f)
  then show ?case by (cases f') auto
qed

lemma members_key_split:
  assumes "ms \<noteq> []" "plain_ids ms"
  shows "split CHR '','' (members_key ms) = sort (map pair_key ms)"
proof -
  have eq: "map (\<lambda>(family_id, user_id). family_id @ '':'' @ user_id) ms = map pair_key ms"
    by (simp add: pair_key_def case_prod_beta)
  from assms(1) have "sort (map pair_key ms) \<noteq> []"
    by (intro sort_not_Nil) simp
  moreover from assms(2) have "\<forall>x\<in>set (sort (map pair_key ms)). CHR '','' \<notin> set x"
    by (auto simp: plain_ids_def list_all_iff pair_key_def)
  ultimately show ?thesis
    unfolding members_key_def eq by (rule split_join)
qed

lemma count_new_members_key:
  assumes "B \<noteq> []" "C \<noteq> []" "plain_ids B" "plain_ids C"
  shows "count_new (members_key B) (members_key C) = card (set C - set B)"
proof -
  have inj: "inj_on pair_key (set C \<union> set B)"
  proof (rule inj_onI)
    fix m m' assume "m \<in> set C \<union> set B" "m' \<in> set C \<union> set B" "pair_key m = pair_key m'"
    with assms(3,4) have "fst m = fst m' \<and> snd m = snd m'"
      by (intro pair_key_inj) (auto simp: plain_ids_def list_all_iff pair_key_def)
    then show "m = m'" by (simp add: prod_eq_iff)
  qed
  have "count_new (members_key B) (members_key C)
      = card (pair_key ` set C - pair_key ` set B)"
    by (simp add: count_new_card members_key_split assms)
  also have "pair_key ` set C - pair_key ` set B = pair_key ` (set C - set B)"
    by (rule inj_on_image_set_diff [OF inj, symmetric]) blast+
  also have "card (pair_key ` (set C - set B)) = card (set C - set B)"
    by (rule card_image) (rule inj_on_subset [OF inj], blast)
  finally show ?thesis .
qed

lemma members_key_not_Nil:
  assumes "ms \<noteq> []"
  shows "members_key ms \<noteq> []"
proof -
  let ?keys = "map (\<lambda>(family_id, user_id). family_id @ '':'' @ user_id) ms"
  from assms have "sort ?keys \<noteq> []"
    by (intro sort_not_Nil) simp
  then obtain k ks where s: "sort ?keys = k # ks"
    by (cases "sort ?keys") simp_all
  have "k \<in> set (sort ?keys)" unfolding s by simp
  then have "k \<in> set ?keys" by simp
  then obtain m where "m \<in> set ms" "k = (case m of (family_id, user_id) \<Rightarrow> family_id @ '':'' @ user_id)"
    by (auto simp only: set_map)
  then have "k \<noteq> []" by (simp add: case_prod_beta)
  with s show ?thesis
    by (cases ks) (simp_all add: members_key_def)
qed

text \<open>
  Where the stored baseline is the key of a membership list, the current membership is
  not empty and the ids are plain, \<^verbatim>\<open>checkNewMembers\<close> returns the number of pairs
  that are present now and absent from the baseline.
\<close>

lemma checkNewMembers_counts_new_pairs:
  assumes baseline: "localStorage s (''family_members_'' @ userId) = Some (members_key B)"
      "B \<noteq> []" "plain_ids B"
    and current: "current_members a userId s = Some C" "C \<noteq> []" "plain_ids C"
  shows "fst (checkNewMembers a userId s) = card (set C - set B)"
proof -
  from current(1) obtain fams where f: "families a (families_url userId s) = Ok fams" "fams \<noteq> []"
    "fst (fetch_members a (API_BASE s) fams [] [families_url userId s]) = Some C"
    by (auto simp: current_members_def split: fetched.splits if_splits)
  from f(3) obtain q where fm: "fetch_members a (API_BASE s) fams [] [families_url userId s] = (Some C, q)"
    by (cases "fetch_members a (API_BASE s) fams [] [families_url userId s]") simp
  from baseline(2) have "members_key B \<noteq> []" by (rule members_key_not_Nil)
  with f(1,2) fm baseline(1)
  have "fst (checkNewMembers a userId s) = count_new (members_key B) (members_key C)"
    by (simp add: checkNewMembers_def families_url_def Let_def)
  with assms show ?thesis by (simp add: count_new_members_key)
qed

text \<open>The example of the specification: U3 has joined, the count is 1.\<close>

lemma count_new_example: "count_new ''F1:U1,F1:U2'' ''F1:U1,F1:U2,F1:U3'' = 1"
  by code_simp

lemma members_key_grown: "members_key [(''F1'', ''U1''), (''F1'', ''U2''), (''F1'', ''U3'')] = ''F1:U1,F1:U2,F1:U3''"
  by code_simp

lemma checkNewMembers_example: "fst (checkNewMembers grown_api ''7'' returning_page) = 1"
proof -
  have "fetch_members grown_api (API_BASE returning_page) [''F1''] [] [''http://127.0.0.1:8900/api/user/7/families'']
      = (Some [(''F1'', ''U1''), (''F1'', ''U2''), (''F1'', ''U3'')],
         [''http://127.0.0.1:8900/api/user/7/families'', ''http://127.0.0.1:8900/api/family/F1/members''])"
    by (simp add: grown_api_def API_BASE_returning_page template_def Let_def)
  then show ?thesis
    by (simp add: checkNewMembers_def grown_api_def API_BASE_returning_page
        localStorage_returning_page template_def Let_def members_key_grown count_new_example)
qed

text \<open>
  C5 fails on an empty current membership. With the baseline of two members stored,
  and the members request of the one family answered without success, the current
  membership is empty: no pair is present now and absent from the baseline, yet the
  count is 1, since splitting the empty key gives one empty identifier.
\<close>

theorem checkNewMembers_empty_membership:
  "current_members stalled_api ''7'' returning_page = Some []
   \<and> fst (checkNewMembers stalled_api ''7'' returning_page) = 1"
proof -
  have "fetch_members stalled_api (API_BASE returning_page) [''F1''] [] [''http://127.0.0.1:8900/api/user/7/families'']
      = (Some [], [''http://127.0.0.1:8900/api/user/7/families'', ''http://127.0.0.1:8900/api/family/F1/members''])"
    by (simp add: stalled_api_def API_BASE_returning_page template_def Let_def)
  then show ?thesis
    by (simp add: checkNewMembers_def current_members_def families_url_def stalled_api_def
        API_BASE_returning_page localStorage_returning_page template_def Let_def
        members_key_Nil count_new_empty_key)
qed


section \<open>Properties of the badge\<close>

lemma is_badge_Text [simp]: "\<not> is_badge (Text t)"
  by (simp add: is_badge_def)



lemma badges_append [simp]: "badges (xs @ ys) = badges xs + badges ys"
  by (induction xs) simp_all







section \<open>Properties of the family code view\<close>

text \<open>
  C8 fails on the failure path. When the write to the clipboard fails,
  \<^verbatim>\<open>copyToClipboard\<close> sets the failure message and arms no timer, so the message
  stays however long one waits; on success the message is cleared after 3000 ms.
\<close>

theorem copyToClipboard_failure_stays:
  "message (elapse d (copyToClipboard False txt mounted)) = ''Failed to copy to clipboard''
   \<and> timers (copyToClipboard False txt mounted) = []
   \<and> message (copyToClipboard True txt mounted) = ''Family code copied to clipboard!''
   \<and> message (elapse 2999 (copyToClipboard True txt mounted)) = ''Family code copied to clipboard!''
   \<and> message (elapse 3000 (copyToClipboard True txt mounted)) = []"
  by (simp add: elapse_def copyToClipboard_def mounted_def)

end
